theory Spec2Isabelle
  imports Main "HOL-Library.Word" "HOL-Library.Char_ord" "HOL-Library.List_Lexorder"
begin

unbundle bit_operations_syntax

section \<open>Big numbers\<close>

text \<open>
  Modelled from the spec: the class \<open>Bignum\<close> (types/bignum.ts) is not among the
  sources. The spec's design notes call it an arbitrary-precision integer, so a
  \<open>Bignum\<close> is an \<open>int\<close>; \<open>add\<close>, \<open>subtract\<close>, \<open>divide\<close>, \<open>and\<close>,
  \<open>lessThan\<close>, \<open>lessThanOrEqual\<close>, \<open>greaterThan\<close>, \<open>equals\<close> and \<open>compare\<close> are the
  integer operations \<open>+\<close>, \<open>-\<close>, \<open>div\<close>, \<open>AND\<close>, \<open><\<close>, \<open>\<le>\<close>, \<open>>\<close>
  and \<open>=\<close>, written in place below.
\<close>

type_synonym Bignum = int

definition shiftLeft :: "Bignum \<Rightarrow> nat \<Rightarrow> Bignum" where
  \<comment> \<open>Modelled from the spec: \<open>Bignum.shiftLeft(n)\<close>, the number times \<open>2 ^ n\<close>.\<close>
  "shiftLeft b n = push_bit n b"

definition mask_bytes :: "Bignum \<Rightarrow> nat \<Rightarrow> Bignum" where
  \<comment> \<open>Modelled from the spec: \<open>Bignum.mask(byteSize)\<close>, the truncated bits of the number:
      its lowest \<open>byteSize\<close> bytes.\<close>
  "mask_bytes b byteSize = take_bit (byteSize * 8) b"

section \<open>Packet numbers (header.properties.ts)\<close>

text \<open>A \<open>PacketNumber\<close> holds one \<open>Bignum\<close>; \<open>getValue\<close> reads it.\<close>

type_synonym PacketNumber = Bignum

definition getBitSize :: "nat \<Rightarrow> nat" where
  "getBitSize sz = (if sz = 1 then 7 else if sz = 2 then 14 else 30)"

definition pnMask_step :: "nat \<Rightarrow> Bignum \<Rightarrow> nat \<Rightarrow> Bignum" where
  \<comment> \<open>One round of the loop \<open>for (var i = 0; i < 63; i++)\<close> of \<open>adjustNumber\<close>.\<close>
  "pnMask_step sz pnMask i =
     (let pnMask = shiftLeft pnMask 1
      in if 63 - int i > int (sz * 8) then pnMask + 1 else pnMask)"

definition pnMask_loop :: "nat \<Rightarrow> Bignum" where
  "pnMask_loop sz = foldl (pnMask_step sz) 1 [0..<63]"

definition adjustNumber :: "PacketNumber \<Rightarrow> PacketNumber \<Rightarrow> nat \<Rightarrow> Bignum" where
  \<comment> \<open>\<open>this.adjustNumber(packetNumber, size)\<close>: \<open>this\<close> holds the largest number seen.\<close>
  "adjustNumber this packetNumber sz =
     (let pnMask = pnMask_loop sz;
          expectedPn = this + 1;
          pnWin = shiftLeft 1 (getBitSize sz);
          pnHWin = pnWin div 2;
          maskedResult = expectedPn AND pnMask;
          candidatePn = mask_bytes packetNumber sz;
          candidatePn = candidatePn + maskedResult
      in if candidatePn \<le> expectedPn - pnHWin then candidatePn + pnWin
         else if candidatePn > expectedPn + pnHWin \<and> candidatePn > pnWin
           then candidatePn - pnWin
         else candidatePn)"

definition DecodePacketNumber :: "Bignum \<Rightarrow> Bignum \<Rightarrow> nat \<Rightarrow> Bignum" where
  \<comment> \<open>The pseudo-code in the comment above \<open>adjustNumber\<close>, which the method is written
      after: \<open>DecodePacketNumber(largest_pn, truncated_pn, pn_nbits)\<close>.\<close>
  "DecodePacketNumber largest_pn truncated_pn pn_nbits =
     (let expected_pn = largest_pn + 1;
          pn_win = push_bit pn_nbits 1;
          pn_hwin = pn_win div 2;
          pn_mask = pn_win - 1;
          candidate_pn = (expected_pn AND NOT pn_mask) OR truncated_pn
      in if candidate_pn \<le> expected_pn - pn_hwin then candidate_pn + pn_win
         else if candidate_pn > expected_pn + pn_hwin \<and> candidate_pn > pn_win
           then candidate_pn - pn_win
         else candidate_pn)"

section \<open>Congestion control (congestion.control.ts)\<close>

text \<open>
  What the controller reads of a \<open>BasePacket\<close> (the class is not among the sources):
  \<open>isAckOnly()\<close>, the length of \<open>toBuffer(connection)\<close>, \<open>getSize()\<close> and the packet
  number of its header.
\<close>

record BasePacket =
  ackOnly :: bool
  byteLength :: nat
  packetSize :: nat
  packetNumber :: Bignum

datatype BignumInf = Infinity | Fin Bignum

definition lessThanInf :: "Bignum \<Rightarrow> BignumInf \<Rightarrow> bool" where
  \<comment> \<open>Modelled from the spec: \<open>lessThan\<close> against \<open>Bignum.infinity()\<close>; the spec
      initialises ssthresh to infinity, above every window.\<close>
  "lessThanInf a b = (case b of Infinity \<Rightarrow> True | Fin v \<Rightarrow> a < v)"

definition divide :: "Bignum \<Rightarrow> Bignum \<Rightarrow> Bignum" where
  \<comment> \<open>Modelled from the spec: \<open>Bignum.divide\<close>, integer division. The controller divides a
      non-negative number by its window, where every rounding convention agrees as long as
      the window is positive.\<close>
  "divide a b = a div b"

definition DEFAULT_MSS :: int where
  "DEFAULT_MSS = 1460"

definition INITIAL_WINDOW :: int where
  "INITIAL_WINDOW = DEFAULT_MSS * 10"

definition MINIMUM_WINDOW :: int where
  "MINIMUM_WINDOW = DEFAULT_MSS * 2"

text \<open>
  The controller's fields, and what it does to its collaborators: \<open>lastPacketNumber\<close> is
  the connection's counter behind \<open>getNextPacketNumber()\<close>, \<open>socketSent\<close> the sizes of the
  datagrams handed to \<open>socket.send\<close>, \<open>emitted\<close> the packets announced with
  \<open>PACKET_SENT\<close>, oldest first.
\<close>

record CongestionControl =
  packetsQueue :: "BasePacket list"
  bytesInFlight :: Bignum
  congestionWindow :: Bignum
  endOfRecovery :: Bignum
  sshtresh :: BignumInf
  lastPacketNumber :: Bignum
  socketSent :: "nat list"
  emitted :: "BasePacket list"

definition constructor :: "Bignum \<Rightarrow> CongestionControl" where
  \<comment> \<open>The argument is the packet counter of the connection the controller is built for.\<close>
  "constructor pn =
     \<lparr> packetsQueue = [], bytesInFlight = 0, congestionWindow = INITIAL_WINDOW,
       endOfRecovery = 0, sshtresh = Infinity, lastPacketNumber = pn,
       socketSent = [], emitted = [] \<rparr>"

definition inRecovery :: "CongestionControl \<Rightarrow> Bignum \<Rightarrow> bool" where
  "inRecovery s pn = (pn \<le> endOfRecovery s)"

definition onPacketSent :: "CongestionControl \<Rightarrow> BasePacket \<Rightarrow> CongestionControl" where
  "onPacketSent s packetSent =
     (if \<not> ackOnly packetSent
      then s\<lparr>bytesInFlight := bytesInFlight s + int (byteLength packetSent)\<rparr>
      else s)"

definition getNextPacketNumber :: "CongestionControl \<Rightarrow> Bignum \<times> CongestionControl" where
  \<comment> \<open>Modelled from the spec: \<open>Connection.getNextPacketNumber()\<close>; each sent packet is
      assigned the next number in its space.\<close>
  "getNextPacketNumber s =
     (lastPacketNumber s + 1, s\<lparr>lastPacketNumber := lastPacketNumber s + 1\<rparr>)"

text \<open>
  \<open>emit(PACKET_SENT, packet)\<close> runs listeners that live outside this class. The one way
  back into the controller that the sources show is \<open>ConnectionEvent.PACKET_SENT\<close>, hooked
  to \<open>onPacketSent\<close>. The parameter \<open>listeners\<close> gives, for an announced packet, the packets
  for which the connection raises that event before \<open>emit\<close> returns: none if it reports
  later, the packet itself if it reports at once.
\<close>

definition emit_PACKET_SENT ::
  "(BasePacket \<Rightarrow> BasePacket list) \<Rightarrow> CongestionControl \<Rightarrow> BasePacket \<Rightarrow> CongestionControl" where
  "emit_PACKET_SENT listeners s packet =
     foldl onPacketSent (s\<lparr>emitted := emitted s @ [packet]\<rparr>) (listeners packet)"

definition announced :: "CongestionControl \<Rightarrow> BasePacket" where
  \<comment> \<open>The head of the queue, with the packet number it is sent under.\<close>
  "announced s = (hd (packetsQueue s))\<lparr>packetNumber := fst (getNextPacketNumber s)\<rparr>"

definition dispatch ::
  "(BasePacket \<Rightarrow> BasePacket list) \<Rightarrow> CongestionControl \<Rightarrow> CongestionControl" where
  \<comment> \<open>The body of the loop of \<open>sendPackets\<close>; the queue is not empty there, so \<open>shift()\<close>
      gives its head.\<close>
  "dispatch listeners s =
     (let packet = hd (packetsQueue s);
          s = s\<lparr>packetsQueue := tl (packetsQueue s)\<rparr>;
          (pn, s) = getNextPacketNumber s;
          packet = packet\<lparr>packetNumber := pn\<rparr>;
          s = s\<lparr>socketSent := socketSent s @ [packetSize packet]\<rparr>
      in emit_PACKET_SENT listeners s packet)"

lemma packetsQueue_foldl_onPacketSent:
  "packetsQueue (foldl onPacketSent s ps) = packetsQueue s"
  by (induction ps arbitrary: s) (simp_all add: onPacketSent_def)

lemma packetsQueue_dispatch:
  "packetsQueue (dispatch listeners s) = tl (packetsQueue s)"
  by (simp add: dispatch_def emit_PACKET_SENT_def getNextPacketNumber_def Let_def
      packetsQueue_foldl_onPacketSent)

function sendPackets ::
  "(BasePacket \<Rightarrow> BasePacket list) \<Rightarrow> CongestionControl \<Rightarrow> CongestionControl" where
  "sendPackets listeners s =
     (if bytesInFlight s < congestionWindow s \<and> length (packetsQueue s) > 0
      then sendPackets listeners (dispatch listeners s)
      else s)"
  by pat_completeness auto
termination
  by (relation "measure (\<lambda>(listeners, s). length (packetsQueue s))")
    (auto simp add: packetsQueue_dispatch)

declare sendPackets.simps [simp del]

definition onPacketAcked ::
  "(BasePacket \<Rightarrow> BasePacket list) \<Rightarrow> CongestionControl \<Rightarrow> BasePacket \<Rightarrow> CongestionControl" where
  "onPacketAcked listeners s ackedPacket =
     (if ackOnly ackedPacket then s
      else
        let packetByteSize = int (byteLength ackedPacket);
            s = s\<lparr>bytesInFlight := bytesInFlight s - packetByteSize\<rparr>
        in if inRecovery s (packetNumber ackedPacket) then s
           else
             let s = (if lessThanInf (congestionWindow s) (sshtresh s)
                      then s\<lparr>congestionWindow := congestionWindow s + packetByteSize\<rparr>
                      else s\<lparr>congestionWindow := congestionWindow s
                             + divide (DEFAULT_MSS * packetByteSize) (congestionWindow s)\<rparr>)
             in sendPackets listeners s)"

fun lost_step :: "CongestionControl \<times> Bignum \<Rightarrow> BasePacket \<Rightarrow> CongestionControl \<times> Bignum" where
  \<comment> \<open>The callback of \<open>lostPackets.forEach\<close>, on the controller and \<open>largestLost\<close>.\<close>
  "lost_step (s, largestLost) lostPacket =
     (if ackOnly lostPacket then (s, largestLost)
      else
        let packetByteSize = int (byteLength lostPacket);
            s = s\<lparr>bytesInFlight := bytesInFlight s - packetByteSize\<rparr>
        in (s, if packetNumber lostPacket > largestLost then packetNumber lostPacket
               else largestLost))"

text \<open>
  \<open>LOSS_REDUCTION_FACTOR\<close> is the fraction 0.5, and how \<open>Bignum.multiply\<close> rounds a product
  with a fraction is not in the sources: the parameter \<open>multiply\<close> stands for
  \<open>congestionWindow.multiply(LOSS_REDUCTION_FACTOR)\<close>. \<open>Bignum.max\<close> is the larger of two.
\<close>

definition onPacketsLost ::
  "(Bignum \<Rightarrow> Bignum) \<Rightarrow> (BasePacket \<Rightarrow> BasePacket list) \<Rightarrow> CongestionControl
    \<Rightarrow> BasePacket list \<Rightarrow> CongestionControl" where
  "onPacketsLost multiply listeners s lostPackets =
     (let (s, largestLost) = foldl lost_step (s, 0) lostPackets;
          s = (if \<not> inRecovery s largestLost
               then
                 let s = s\<lparr>endOfRecovery := largestLost\<rparr>;
                     s = s\<lparr>congestionWindow := multiply (congestionWindow s)\<rparr>;
                     s = s\<lparr>congestionWindow := max (congestionWindow s) MINIMUM_WINDOW\<rparr>
                 in s\<lparr>sshtresh := Fin (congestionWindow s)\<rparr>
               else s)
      in sendPackets listeners s)"

definition onRetransmissionTimeoutVerified :: "CongestionControl \<Rightarrow> CongestionControl" where
  "onRetransmissionTimeoutVerified s = s\<lparr>congestionWindow := MINIMUM_WINDOW\<rparr>"

definition queuePackets ::
  "(BasePacket \<Rightarrow> BasePacket list) \<Rightarrow> CongestionControl \<Rightarrow> BasePacket list \<Rightarrow> CongestionControl" where
  "queuePackets listeners s packets =
     sendPackets listeners (s\<lparr>packetsQueue := packetsQueue s @ packets\<rparr>)"

text \<open>
  The states the controller can be in: built by the constructor and driven by its event
  handlers and by \<open>queuePackets\<close>, each with any packets and any listeners.
\<close>

inductive reachable :: "(Bignum \<Rightarrow> Bignum) \<Rightarrow> CongestionControl \<Rightarrow> bool"
  for multiply :: "Bignum \<Rightarrow> Bignum" where
  built: "reachable multiply (constructor pn)"
| sent: "reachable multiply s \<Longrightarrow> reachable multiply (onPacketSent s p)"
| acked: "reachable multiply s \<Longrightarrow> reachable multiply (onPacketAcked listeners s p)"
| lost: "reachable multiply s \<Longrightarrow> reachable multiply (onPacketsLost multiply listeners s ps)"
| timeout: "reachable multiply s \<Longrightarrow> reachable multiply (onRetransmissionTimeoutVerified s)"
| queued: "reachable multiply s \<Longrightarrow> reachable multiply (queuePackets listeners s ps)"

function dispatches ::
  "(BasePacket \<Rightarrow> BasePacket list) \<Rightarrow> CongestionControl \<Rightarrow> CongestionControl list" where
  \<comment> \<open>The states in which a run of \<open>sendPackets\<close> enters the body of its loop, in order.\<close>
  "dispatches listeners s =
     (if bytesInFlight s < congestionWindow s \<and> length (packetsQueue s) > 0
      then s # dispatches listeners (dispatch listeners s)
      else [])"
  by pat_completeness auto
termination
  by (relation "measure (\<lambda>(listeners, s). length (packetsQueue s))")
    (auto simp add: packetsQueue_dispatch)

declare dispatches.simps [simp del]

section \<open>Alarm (types/alarm.ts)\<close>

text \<open>
  The alarm's two fields, and what it does to its surroundings: \<open>pendingTimers\<close> are the
  timers of \<open>global.setTimeout\<close> that have neither fired nor been cleared, each with its
  handle and its delay; \<open>nextTimer\<close> is the handle the next \<open>setTimeout\<close> returns;
  \<open>timeoutsEmitted\<close> counts the \<open>TIMEOUT\<close> events emitted. \<open>timer\<close> is undefined until the
  first \<open>start\<close>.
\<close>

record Alarm =
  timer :: "nat option"
  running :: bool
  pendingTimers :: "(nat \<times> nat) list"
  nextTimer :: nat
  timeoutsEmitted :: nat

definition new_Alarm :: Alarm where
  "new_Alarm =
     \<lparr> timer = None, running = False, pendingTimers = [], nextTimer = 0,
       timeoutsEmitted = 0 \<rparr>"

definition isRunning :: "Alarm \<Rightarrow> bool" where
  "isRunning a = running a"

definition clearTimeout :: "Alarm \<Rightarrow> nat option \<Rightarrow> Alarm" where
  \<comment> \<open>Node's \<open>clearTimeout\<close>: the timer of that handle, if it is pending, is dropped.\<close>
  "clearTimeout a h = a\<lparr>pendingTimers := filter (\<lambda>(k, ms). Some k \<noteq> h) (pendingTimers a)\<rparr>"

definition setTimeout :: "Alarm \<Rightarrow> nat \<Rightarrow> nat \<times> Alarm" where
  \<comment> \<open>Node's \<open>setTimeout\<close>: a new pending timer; its handle is returned.\<close>
  "setTimeout a timeInMs =
     (nextTimer a,
      a\<lparr>pendingTimers := pendingTimers a @ [(nextTimer a, timeInMs)],
        nextTimer := Suc (nextTimer a)\<rparr>)"

definition reset :: "Alarm \<Rightarrow> Alarm" where
  "reset a =
     (if \<not> isRunning a then a
      else
        let a = a\<lparr>running := False\<rparr>
        in clearTimeout a (timer a))"

definition start :: "Alarm \<Rightarrow> nat \<Rightarrow> Alarm" where
  "start a timeInMs =
     (if isRunning a then a
      else
        let a = a\<lparr>running := True\<rparr>;
            (h, a) = setTimeout a timeInMs
        in a\<lparr>timer := Some h\<rparr>)"

definition onTimeout :: "Alarm \<Rightarrow> Alarm" where
  "onTimeout a =
     (if isRunning a
      then
        let a = a\<lparr>running := False\<rparr>
        in a\<lparr>timeoutsEmitted := Suc (timeoutsEmitted a)\<rparr>
      else a)"

definition fire :: "Alarm \<Rightarrow> nat \<Rightarrow> Alarm option" where
  \<comment> \<open>The pending timer of handle \<open>h\<close> runs out: Node takes it off its list and runs the
      callback given to \<open>setTimeout\<close>, which calls \<open>onTimeout\<close>. No such timer: nothing fires.\<close>
  "fire a h =
     (if h \<in> fst ` set (pendingTimers a)
      then Some (onTimeout (a\<lparr>pendingTimers := filter (\<lambda>(k, ms). k \<noteq> h) (pendingTimers a)\<rparr>))
      else None)"

inductive alarm_reachable :: "Alarm \<Rightarrow> bool" where
  \<comment> \<open>The alarms a program can hold: a new one, driven by \<open>start\<close>, \<open>reset\<close> and its timers.\<close>
  created: "alarm_reachable new_Alarm"
| started: "alarm_reachable a \<Longrightarrow> alarm_reachable (start a timeInMs)"
| was_reset: "alarm_reachable a \<Longrightarrow> alarm_reachable (reset a)"
| fired: "alarm_reachable a \<Longrightarrow> fire a h = Some a' \<Longrightarrow> alarm_reachable a'"

definition alarm_inv :: "Alarm \<Rightarrow> bool" where
  \<comment> \<open>What holds of every alarm a program can hold: a running alarm has exactly one
      pending timer, the one in \<open>timer\<close>; an alarm that is not running has none.\<close>
  "alarm_inv a =
     (if running a then \<exists>h ms. timer a = Some h \<and> pendingTimers a = [(h, ms)]
      else pendingTimers a = [])"

section \<open>Header properties (header.properties.ts)\<close>

text \<open>
  A \<open>ConnectionID\<close> holds a \<open>Bignum\<close> and its length in bytes. A \<open>Version\<close> holds a \<open>Bignum\<close>
  of four bytes.
\<close>

record ConnectionID =
  cidValue :: Bignum
  cidLength :: nat

type_synonym Version = Bignum

section \<open>Packet handler (packet.handler.ts)\<close>

datatype EndpointType = Client | Server

text \<open>
  Modelled from the spec: the error codes (utilities/errors) are not among the sources;
  the spec lists the codes a \<open>QuicError\<close> carries on the wire and the local ones of a
  \<open>QuickerError\<close>. The message of an error is left out.
\<close>

datatype ConnectionErrorCodes =
  NO_ERROR | INTERNAL_ERROR | SERVER_BUSY | FLOW_CONTROL_ERROR | STREAM_ID_ERROR
  | STREAM_STATE_ERROR | FINAL_OFFSET_ERROR | FRAME_ENCODING_ERROR
  | TRANSPORT_PARAMETER_ERROR | VERSION_NEGOTIATION_ERROR | PROTOCOL_VIOLATION

datatype QuickerErrorCodes = IGNORE_PACKET_ERROR | DECRYPTION_FAILURE | TIMEOUT_ERROR




primrec indexOf :: "'a list \<Rightarrow> 'a \<Rightarrow> int" where
  \<comment> \<open>\<open>Array.prototype.indexOf\<close>: the first index of the element, \<open>-1\<close> if there is none.\<close>
  "indexOf [] x = - 1"
| "indexOf (y # ys) x =
     (if y = x then 0 else let i = indexOf ys x in if i = - 1 then - 1 else i + 1)"














section \<open>Stream manager (stream.manager.ts)\<close>

text \<open>
  What the manager reads and writes of a \<open>Stream\<close> (the class is not among the sources):
  its ID and endpoint type, given to the constructor, and the limits given to
  \<open>setLocalMaxData\<close> and \<open>setRemoteMaxData\<close>, undefined until they are set.
\<close>

record Stream =
  streamID :: Bignum
  streamEndpointType :: EndpointType
  localMaxData :: "Bignum option"
  remoteMaxData :: "Bignum option"

text \<open>
  The manager holds references to stream objects, and the object it has pushed on its
  list is the one it goes on to write, to announce and to return. So streams live in a
  store: \<open>objects\<close> are the stream objects created so far, a reference is the index of
  one. \<open>streams\<close> is the manager's list, \<open>initialized\<close> the streams announced with
  \<open>INITIALIZED_STREAM\<close>, oldest first.
\<close>

type_synonym ref = nat

record StreamManager =
  objects :: "Stream list"
  streams :: "ref list"
  endpointType :: EndpointType
  localMaxStreamData :: "Bignum option"
  remoteMaxStreamData :: "Bignum option"
  initialized :: "ref list"

definition new_StreamManager :: "EndpointType \<Rightarrow> StreamManager" where
  "new_StreamManager endpoint =
     \<lparr> objects = [], streams = [], endpointType = endpoint, localMaxStreamData = None,
       remoteMaxStreamData = None, initialized = [] \<rparr>"

definition new_Stream :: "StreamManager \<Rightarrow> EndpointType \<Rightarrow> Bignum \<Rightarrow> ref \<times> StreamManager" where
  \<comment> \<open>\<open>new Stream(endpointType, streamId)\<close>: one more object in the store.\<close>
  "new_Stream m endpoint streamId =
     (length (objects m),
      m\<lparr>objects := objects m
           @ [\<lparr>streamID = streamId, streamEndpointType = endpoint,
               localMaxData = None, remoteMaxData = None\<rparr>]\<rparr>)"

definition getStreamID :: "StreamManager \<Rightarrow> ref \<Rightarrow> Bignum" where
  "getStreamID m stream = streamID (objects m ! stream)"

definition setLocalMaxData :: "StreamManager \<Rightarrow> ref \<Rightarrow> Bignum \<Rightarrow> StreamManager" where
  "setLocalMaxData m stream maxData =
     m\<lparr>objects := (objects m)[stream := (objects m ! stream)\<lparr>localMaxData := Some maxData\<rparr>]\<rparr>"

definition setRemoteMaxData :: "StreamManager \<Rightarrow> ref \<Rightarrow> Bignum \<Rightarrow> StreamManager" where
  "setRemoteMaxData m stream maxData =
     m\<lparr>objects := (objects m)[stream := (objects m ! stream)\<lparr>remoteMaxData := Some maxData\<rparr>]\<rparr>"

definition setLocalMaxStreamData :: "StreamManager \<Rightarrow> Bignum \<Rightarrow> StreamManager" where
  "setLocalMaxStreamData m maxStreamData = m\<lparr>localMaxStreamData := Some maxStreamData\<rparr>"

definition setRemoteMaxStreamData :: "StreamManager \<Rightarrow> Bignum \<Rightarrow> StreamManager" where
  "setRemoteMaxStreamData m maxStreamData = m\<lparr>remoteMaxStreamData := Some maxStreamData\<rparr>"

definition getStream_private :: "StreamManager \<Rightarrow> Bignum \<Rightarrow> ref option" where
  \<comment> \<open>\<open>_getStream\<close>: the loop runs over the whole list, so the last stream of that ID wins.\<close>
  "getStream_private m streamId =
     foldl (\<lambda>res stream. if getStreamID m stream = streamId then Some stream else res)
       None (streams m)"

definition hasStream :: "StreamManager \<Rightarrow> Bignum \<Rightarrow> bool" where
  "hasStream m streamId = (getStream_private m streamId \<noteq> None)"

definition addStream :: "StreamManager \<Rightarrow> ref \<Rightarrow> StreamManager" where
  "addStream m stream =
     (if getStream_private m (getStreamID m stream) = None
      then m\<lparr>streams := streams m @ [stream]\<rparr>
      else m)"

definition initializeStream :: "StreamManager \<Rightarrow> Bignum \<Rightarrow> ref \<times> StreamManager" where
  "initializeStream m streamId =
     (let (stream, m) = new_Stream m (endpointType m) streamId;
          m = addStream m stream;
          m = (case localMaxStreamData m of
                 Some maxData \<Rightarrow> setLocalMaxData m stream maxData
               | None \<Rightarrow> m);
          m = (case remoteMaxStreamData m of
                 Some maxData \<Rightarrow> setRemoteMaxData m stream maxData
               | None \<Rightarrow> m);
          m = m\<lparr>initialized := initialized m @ [stream]\<rparr>
      in (stream, m))"

definition getStream :: "StreamManager \<Rightarrow> Bignum \<Rightarrow> ref \<times> StreamManager" where
  "getStream m streamId =
     (case getStream_private m streamId of
        None \<Rightarrow> initializeStream m streamId
      | Some stream \<Rightarrow> (stream, m))"

definition deleteStream :: "StreamManager \<Rightarrow> Bignum + ref \<Rightarrow> StreamManager" where
  \<comment> \<open>The argument is a stream ID (\<open>Inl\<close>) or a stream (\<open>Inr\<close>); \<open>splice(index, 1)\<close> takes
      the entry at \<open>index\<close> out of the list.\<close>
  "deleteStream m obj =
     (let stream = (case obj of Inl streamId \<Rightarrow> getStream_private m streamId
                    | Inr stream \<Rightarrow> Some stream)
      in case stream of
           None \<Rightarrow> m
         | Some stream \<Rightarrow>
             let index = indexOf (streams m) stream
             in if index > - 1
                then m\<lparr>streams := take (nat index) (streams m) @ drop (nat index + 1) (streams m)\<rparr>
                else m)"

lemma filter_filter_less:
  assumes "x \<in> set xs" and "Q x" and "\<not> P x" and "\<And>y. P y \<Longrightarrow> Q y"
  shows "length (filter P xs) < length (filter Q xs)"
proof -
  from assms(4) have "filter P xs = filter P (filter Q xs)"
    by (auto intro: filter_cong)
  moreover from assms(1,2) have "x \<in> set (filter Q xs)"
    by simp
  ultimately show ?thesis
    using assms(3) by (simp add: length_filter_less del: filter_filter)
qed

lemma getStream_private_set:
  "getStream_private m streamId \<noteq> None \<Longrightarrow> streamId \<in> getStreamID m ` set (streams m)"
proof -
  have "foldl (\<lambda>res stream. if getStreamID m stream = streamId then Some stream else res) res0 rs
      \<noteq> None \<Longrightarrow> res0 \<noteq> None \<or> streamId \<in> getStreamID m ` set rs" for res0 rs
    by (induction rs arbitrary: res0) (auto split: if_splits)
  then show "getStream_private m streamId \<noteq> None \<Longrightarrow> streamId \<in> getStreamID m ` set (streams m)"
    unfolding getStream_private_def by blast
qed

function nextUnused :: "StreamManager \<Rightarrow> Bignum \<Rightarrow> Bignum" where
  \<comment> \<open>The first loop of \<open>getNextStream\<close>: \<open>next\<close> goes up by 4 while a stream has that ID.\<close>
  "nextUnused m next =
     (if getStream_private m next \<noteq> None then nextUnused m (next + 4) else next)"
  by pat_completeness auto
termination
proof (relation "measure (\<lambda>(m, next). length (filter (\<lambda>r. next \<le> getStreamID m r) (streams m)))")
  show "wf (measure (\<lambda>(m, next). length (filter (\<lambda>r. next \<le> getStreamID m r) (streams m))))"
    by simp
next
  fix m :: StreamManager and n :: Bignum
  assume "getStream_private m n \<noteq> None"
  then obtain r where "r \<in> set (streams m)" and "getStreamID m r = n"
    using getStream_private_set by blast
  then have "length (filter (\<lambda>r. n + 4 \<le> getStreamID m r) (streams m))
      < length (filter (\<lambda>r. n \<le> getStreamID m r) (streams m))"
    by (intro filter_filter_less [of r]) simp_all
  then show "((m, n + 4), (m, n))
      \<in> measure (\<lambda>(m, next). length (filter (\<lambda>r. next \<le> getStreamID m r) (streams m)))"
    by simp
qed

declare nextUnused.simps [simp del]

function reduceNext :: "Bignum \<Rightarrow> Bignum" where
  \<comment> \<open>The second loop of \<open>getNextStream\<close>: \<open>next\<close> goes down by 4 while it is above 4.\<close>
  "reduceNext next = (if next > 4 then reduceNext (next - 4) else next)"
  by pat_completeness auto
termination
  by (relation "measure nat") auto

declare reduceNext.simps [simp del]

definition getNextStream :: "StreamManager \<Rightarrow> Bignum \<Rightarrow> ref \<times> StreamManager" where
  \<comment> \<open>\<open>streamType\<close> is the number of the \<open>StreamType\<close>, 0 to 3.\<close>
  "getNextStream m streamType =
     (let next = nextUnused m streamType;
          next = reduceNext next
      in getStream m next)"

text \<open>
  The managers a program can hold: a new one, driven by its public methods. A stream
  handed to \<open>addStream\<close> or \<open>deleteStream\<close> is an object of the store, made by the caller
  (\<open>created\<close>) or got from the manager.
\<close>

inductive sm_reachable :: "StreamManager \<Rightarrow> bool" where
  manager: "sm_reachable (new_StreamManager endpoint)"
| local_limit: "sm_reachable m \<Longrightarrow> sm_reachable (setLocalMaxStreamData m maxStreamData)"
| remote_limit: "sm_reachable m \<Longrightarrow> sm_reachable (setRemoteMaxStreamData m maxStreamData)"
| got: "sm_reachable m \<Longrightarrow> sm_reachable (snd (getStream m streamId))"
| next_got: "sm_reachable m \<Longrightarrow> sm_reachable (snd (getNextStream m streamType))"
| created: "sm_reachable m \<Longrightarrow> sm_reachable (snd (new_Stream m endpoint streamId))"
| added: "sm_reachable m \<Longrightarrow> stream < length (objects m) \<Longrightarrow> sm_reachable (addStream m stream)"
| deleted_id: "sm_reachable m \<Longrightarrow> sm_reachable (deleteStream m (Inl streamId))"
| deleted: "sm_reachable m \<Longrightarrow> stream < length (objects m) \<Longrightarrow>
    sm_reachable (deleteStream m (Inr stream))"

definition sm_inv :: "StreamManager \<Rightarrow> bool" where
  \<comment> \<open>Every stream of the list is an object of the store, and no two have the same ID.\<close>
  "sm_inv m =
     ((\<forall>r \<in> set (streams m). r < length (objects m))
      \<and> distinct (map (getStreamID m) (streams m)))"

definition created_stream :: "StreamManager \<Rightarrow> Bignum \<Rightarrow> Stream" where
  \<comment> \<open>The stream that \<open>initializeStream\<close> leaves in the store for a new ID: built for the
      manager's endpoint type, with the manager's limits where they are set.\<close>
  "created_stream m streamId =
     \<lparr>streamID = streamId, streamEndpointType = endpointType m,
      localMaxData = localMaxStreamData m, remoteMaxData = remoteMaxStreamData m\<rparr>"

section \<open>Buffers\<close>

text \<open>
  A Node \<open>Buffer\<close> is a list of bytes. \<open>Buffer.alloc\<close> gives zeros; \<open>writeUInt8\<close> throws a
  \<open>RangeError\<close> for a value that is not a byte or an offset outside the buffer; \<open>copy\<close>
  writes as much of the source as the target has room for from \<open>targetStart\<close> on, and
  returns how many bytes that was.
\<close>

type_synonym Buffer = "8 word list"

datatype js_error = RangeError | TypeError

definition Buffer_alloc :: "nat \<Rightarrow> Buffer" where
  "Buffer_alloc n = replicate n 0"

definition writeUInt8 :: "Buffer \<Rightarrow> int \<Rightarrow> nat \<Rightarrow> js_error + Buffer" where
  "writeUInt8 buf v offset =
     (if 0 \<le> v \<and> v \<le> 255 \<and> offset < length buf
      then Inr (buf[offset := word_of_int v])
      else Inl RangeError)"

definition copy :: "Buffer \<Rightarrow> Buffer \<Rightarrow> nat \<Rightarrow> nat \<times> Buffer" where
  \<comment> \<open>\<open>source.copy(target, targetStart)\<close>: the bytes copied and the target afterwards.\<close>
  "copy source target targetStart =
     (let n = min (length source) (length target - targetStart)
      in (n, take targetStart target @ take n source @ drop (targetStart + n) target))"

definition toBuffer_Bignum :: "nat \<Rightarrow> Bignum \<Rightarrow> Buffer" where
  \<comment> \<open>Modelled from the spec: \<open>Bignum.toBuffer()\<close>, the number in network order on the
      byte size the \<open>Bignum\<close> was built with.\<close>
  "toBuffer_Bignum byteSize b =
     map (\<lambda>i. word_of_int (b div 256 ^ (byteSize - 1 - i))) [0..<byteSize]"

definition VLIE_encode :: "Bignum \<Rightarrow> Buffer" where
  \<comment> \<open>Modelled from the spec: \<open>VLIE.encode\<close> (crypto/vlie.ts is not among the sources). The
      top two bits of the first byte give the length class (1, 2, 4 or 8 bytes), the other
      bits hold the value in network order, and the smallest class that fits is used;
      values from \<open>2 ^ 62\<close> on are invalid.\<close>
  "VLIE_encode v =
     (if v < 2 ^ 6 then toBuffer_Bignum 1 v
      else if v < 2 ^ 14 then toBuffer_Bignum 2 (v + 0x4000)
      else if v < 2 ^ 30 then toBuffer_Bignum 4 (v + 0x80000000)
      else toBuffer_Bignum 8 (v + 0xC000000000000000))"

section \<open>Long header (long.header.ts)\<close>

definition toBuffer_Version :: "Version \<Rightarrow> Buffer" where
  \<comment> \<open>\<open>BaseProperty.toBuffer\<close> of a \<open>Version\<close>, built on four bytes.\<close>
  "toBuffer_Version v = toBuffer_Bignum 4 v"

definition toBuffer_ConnectionID :: "ConnectionID \<Rightarrow> Buffer" where
  \<comment> \<open>\<open>BaseProperty.toBuffer\<close> of a \<open>ConnectionID\<close>, built on its length.\<close>
  "toBuffer_ConnectionID cid = toBuffer_Bignum (cidLength cid) (cidValue cid)"

definition copy_range :: "Buffer \<Rightarrow> Buffer \<Rightarrow> nat \<Rightarrow> nat \<Rightarrow> nat \<Rightarrow> nat \<times> Buffer" where
  \<comment> \<open>\<open>source.copy(target, targetStart, sourceStart, sourceEnd)\<close>: the copy of the bytes
      of the source from \<open>sourceStart\<close> up to \<open>sourceEnd\<close>.\<close>
  "copy_range source target targetStart sourceStart sourceEnd =
     copy (take (sourceEnd - sourceStart) (drop sourceStart source)) target targetStart"

definition getLeastSignificantBytes :: "PacketNumber \<Rightarrow> nat \<Rightarrow> Buffer" where
  \<comment> \<open>The buffer of a packet number has eight bytes.\<close>
  "getLeastSignificantBytes pn sz =
     (let sz = (if sz > 8 then 8 else sz);
          buf = Buffer_alloc sz
      in snd (copy_range (toBuffer_Bignum 8 pn) buf 0 (8 - sz) 8))"

definition getLeastSignificantBits :: "PacketNumber \<Rightarrow> js_error + Buffer" where
  \<comment> \<open>\<open>toBuffer\<close> calls a method of this name on the packet number, and \<open>PacketNumber\<close>
      (header.properties.ts) has none: its methods are \<open>getValue\<close>, \<open>setValue\<close>,
      \<open>getMostSignificantBytes\<close>, \<open>getLeastSignificantBytes\<close>, \<open>adjustNumber\<close> and
      \<open>getBitSize\<close>, with \<open>toBuffer\<close> and \<open>toString\<close> from \<open>BaseProperty\<close>. Calling what is
      not there throws a \<open>TypeError\<close>.\<close>
  "getLeastSignificantBits pn = Inl TypeError"

definition IsVersionNegotationFlag :: "Version \<Rightarrow> bool" where
  \<comment> \<open>Modelled from the spec: Version Negotiation is distinguished by version 0
      (utilities/validation/version.validation.ts is not among the sources).\<close>
  "IsVersionNegotationFlag v = (v = 0)"

text \<open>
  The fields of a \<open>LongHeader\<close>; the packet type and the packet number are those of its
  \<open>BaseHeader\<close>. The packet number and the payload length may be undefined.
\<close>

record LongHeader =
  packetType :: int
  headerPacketNumber :: "PacketNumber option"
  version :: Version
  destConnectionID :: ConnectionID
  srcConnectionID :: ConnectionID
  payloadLength :: "Bignum option"

definition getSize :: "nat \<Rightarrow> LongHeader \<Rightarrow> nat" where
  \<comment> \<open>The first argument is \<open>Constants.LONG_HEADER_PACKET_NUMBER_SIZE\<close>, which is not
      among the sources.\<close>
  "getSize LONG_HEADER_PACKET_NUMBER_SIZE h =
     (let sz = 6;
          sz = sz + cidLength (destConnectionID h);
          sz = sz + cidLength (srcConnectionID h);
          sz = (if \<not> IsVersionNegotationFlag (version h)
                then sz + LONG_HEADER_PACKET_NUMBER_SIZE else sz);
          sz = (case payloadLength h of
                  Some pl \<Rightarrow> sz + length (VLIE_encode pl)
                | None \<Rightarrow> sz)
      in sz)"

definition toBuffer :: "nat \<Rightarrow> LongHeader \<Rightarrow> js_error + Buffer" where
  \<comment> \<open>\<open>Inl\<close> is the error thrown. A packet number that is undefined where it is read
      throws a \<open>TypeError\<close>.\<close>
  "toBuffer LONG_HEADER_PACKET_NUMBER_SIZE h =
     (let buf = Buffer_alloc (getSize LONG_HEADER_PACKET_NUMBER_SIZE h);
          offset = 0;
          type = 0x80 + packetType h
      in case writeUInt8 buf type offset of
           Inl e \<Rightarrow> Inl e
         | Inr buf \<Rightarrow>
             let offset = offset + 1;
                 (n, buf) = copy (toBuffer_Version (version h)) buf offset;
                 offset = offset + n;
                 destLength =
                   (if cidLength (destConnectionID h) = 0 then int (cidLength (destConnectionID h))
                    else int (cidLength (destConnectionID h)) - 3);
                 srcLength =
                   (if cidLength (srcConnectionID h) = 0 then int (cidLength (srcConnectionID h))
                    else int (cidLength (srcConnectionID h)) - 3)
             in case writeUInt8 buf (push_bit 4 destLength + srcLength) offset of
                  Inl e \<Rightarrow> Inl e
                | Inr buf \<Rightarrow>
                    let offset = offset + 1;
                        (n, buf) = copy (toBuffer_ConnectionID (destConnectionID h)) buf offset;
                        offset = offset + n;
                        (n, buf) = copy (toBuffer_ConnectionID (srcConnectionID h)) buf offset;
                        offset = offset + n
                    in if \<not> IsVersionNegotationFlag (version h)
                       then
                         let (buf, offset) =
                               (case payloadLength h of
                                  Some pl \<Rightarrow>
                                    let payloadLengthBuffer = VLIE_encode pl;
                                        (n, buf) = copy payloadLengthBuffer buf offset
                                    in (buf, offset + n)
                                | None \<Rightarrow> (buf, offset))
                         in case headerPacketNumber h of
                              None \<Rightarrow> Inl TypeError
                            | Some pn \<Rightarrow>
                                (case getLeastSignificantBits pn of
                                   Inl e \<Rightarrow> Inl e
                                 | Inr bits \<Rightarrow> Inr (snd (copy bits buf offset)))
                       else Inr buf)"

definition long_header_layout :: "nat \<Rightarrow> LongHeader \<Rightarrow> Buffer" where
  \<comment> \<open>Modelled from the spec: the layout of a long header whose packet number and payload
      length are present; the truncated packet number is the last
      \<open>LONG_HEADER_PACKET_NUMBER_SIZE\<close> bytes of the packet number.\<close>
  "long_header_layout LONG_HEADER_PACKET_NUMBER_SIZE h =
     [word_of_int (0x80 + packetType h)]
     @ toBuffer_Version (version h)
     @ [word_of_int
          (push_bit 4 (if cidLength (destConnectionID h) = 0 then 0
                       else int (cidLength (destConnectionID h)) - 3)
           + (if cidLength (srcConnectionID h) = 0 then 0
              else int (cidLength (srcConnectionID h)) - 3))]
     @ toBuffer_ConnectionID (destConnectionID h)
     @ toBuffer_ConnectionID (srcConnectionID h)
     @ (if \<not> IsVersionNegotationFlag (version h)
        then VLIE_encode (the (payloadLength h))
             @ getLeastSignificantBytes (the (headerPacketNumber h))
                 LONG_HEADER_PACKET_NUMBER_SIZE
        else [])"

definition written :: "Buffer \<Rightarrow> nat \<Rightarrow> Buffer" where
  \<comment> \<open>A buffer while it is filled: the bytes written so far, and the zeros of
      \<open>Buffer.alloc\<close> after them.\<close>
  "written pre k = pre @ replicate k 0"

definition valid_length :: "nat \<Rightarrow> bool" where
  \<comment> \<open>The lengths a connection ID may have: none, or 4 to 18 bytes.\<close>
  "valid_length n = (n = 0 \<or> (4 \<le> n \<and> n \<le> 18))"

section \<open>Packet-number recovery\<close>

text \<open>
  C1. Recovery is meant to give back the full packet number from its truncation, as the
  pseudo-code in the method's own comment does. The method does not: its mask clears
  \<open>8 * size\<close> bits of the expected number, while its window is \<open>2 ^ 7\<close>, \<open>2 ^ 14\<close> or
  \<open>2 ^ 30\<close>, where the pseudo-code takes the mask from the window. With one byte, largest
  \<open>0xfe\<close> and next \<open>0x100\<close> (truncated \<open>0x00\<close>) it returns \<open>0x80\<close>; the pseudo-code returns
  \<open>0x100\<close> for a width of 7 bits as for one of 8. At the spec's example (largest
  \<open>0xa82f30ea\<close>, truncated \<open>0x9b32\<close>, two bytes) it returns \<open>0xa82f5b32\<close>, the pseudo-code on
  16 bits \<open>0xa82f9b32\<close>.
\<close>

theorem adjustNumber_failing_inputs:
  "pnMask_loop 1 = 0xFFFFFFFFFFFFFF00
   \<and> pnMask_loop 2 = 0xFFFFFFFFFFFF0000
   \<and> shiftLeft 1 (getBitSize 1) = 0x80
   \<and> shiftLeft 1 (getBitSize 2) = 0x4000
   \<and> adjustNumber 0xfe (mask_bytes 0x100 1) 1 = 0x80
   \<and> DecodePacketNumber 0xfe 0x00 7 = 0x100
   \<and> DecodePacketNumber 0xfe 0x00 8 = 0x100
   \<and> adjustNumber 0xa82f30ea 0x9b32 2 = 0xa82f5b32
   \<and> DecodePacketNumber 0xa82f30ea 0x9b32 16 = 0xa82f9b32"
  by code_simp

section \<open>The congestion controller: acknowledgements\<close>

lemma congestionWindow_foldl_onPacketSent:
  "congestionWindow (foldl onPacketSent s ps) = congestionWindow s"
  by (induction ps arbitrary: s) (simp_all add: onPacketSent_def)

lemma congestionWindow_dispatch:
  "congestionWindow (dispatch listeners s) = congestionWindow s"
  by (simp add: dispatch_def emit_PACKET_SENT_def getNextPacketNumber_def Let_def
      congestionWindow_foldl_onPacketSent)

lemma sendPackets_enabled:
  "bytesInFlight s < congestionWindow s \<Longrightarrow> packetsQueue s \<noteq> [] \<Longrightarrow>
    sendPackets listeners s = sendPackets listeners (dispatch listeners s)"
  using sendPackets.simps [of listeners s] by simp

lemma sendPackets_disabled:
  "\<not> (bytesInFlight s < congestionWindow s \<and> packetsQueue s \<noteq> []) \<Longrightarrow>
    sendPackets listeners s = s"
  using sendPackets.simps [of listeners s] by auto

lemma congestionWindow_sendPackets:
  "congestionWindow (sendPackets listeners s) = congestionWindow s"
proof (induction listeners s rule: sendPackets.induct)
  case (1 listeners s)
  show ?case
  proof (cases "bytesInFlight s < congestionWindow s \<and> packetsQueue s \<noteq> []")
    case True
    with 1 show ?thesis
      by (simp add: sendPackets_enabled congestionWindow_dispatch)
  next
    case False
    then show ?thesis
      by (simp add: sendPackets_disabled)
  qed
qed


lemma bytesInFlight_dispatch_silent:
  "listeners (announced s) = [] \<Longrightarrow> bytesInFlight (dispatch listeners s) = bytesInFlight s"
  by (simp add: dispatch_def emit_PACKET_SENT_def getNextPacketNumber_def announced_def Let_def)

lemma bytesInFlight_sendPackets_silent:
  "listeners = (\<lambda>q. []) \<Longrightarrow> bytesInFlight (sendPackets listeners s) = bytesInFlight s"
proof (induction listeners s rule: sendPackets.induct)
  case (1 listeners s)
  show ?case
  proof (cases "bytesInFlight s < congestionWindow s \<and> packetsQueue s \<noteq> []")
    case True
    with 1 show ?thesis
      by (simp add: sendPackets_enabled bytesInFlight_dispatch_silent)
  next
    case False
    then show ?thesis
      by (simp add: sendPackets_disabled)
  qed
qed

text \<open>
  C5. An acknowledged packet of \<open>sz\<close> bytes that is not ack-only takes \<open>sz\<close> off
  \<open>bytesInFlight\<close>. In recovery (its number is at most \<open>endOfRecovery\<close>) nothing else
  changes. Otherwise the window grows by exactly \<open>sz\<close> below \<open>sshtresh\<close> (slow start) and by
  exactly \<open>DEFAULT_MSS * sz div congestionWindow\<close> from \<open>sshtresh\<close> on (congestion
  avoidance, \<open>DEFAULT_MSS = 1460\<close>), and the handler ends in \<open>sendPackets\<close>, which leaves the
  window alone; \<open>bytesInFlight\<close> is \<open>sz\<close> less when it returns, unless packets were waiting
  and the connection reports them sent at once. An ack-only packet changes nothing.
\<close>

theorem onPacketAcked_accounting:
  fixes s :: CongestionControl and p :: BasePacket
  defines "sz \<equiv> int (byteLength p)"
  shows "(ackOnly p \<longrightarrow> onPacketAcked listeners s p = s)
    \<and> (\<not> ackOnly p \<and> packetNumber p \<le> endOfRecovery s \<longrightarrow>
          onPacketAcked listeners s p = s\<lparr>bytesInFlight := bytesInFlight s - sz\<rparr>)
    \<and> (\<not> ackOnly p \<and> \<not> packetNumber p \<le> endOfRecovery s
          \<and> lessThanInf (congestionWindow s) (sshtresh s) \<longrightarrow>
          onPacketAcked listeners s p =
            sendPackets listeners
              (s\<lparr>bytesInFlight := bytesInFlight s - sz,
                 congestionWindow := congestionWindow s + sz\<rparr>)
          \<and> congestionWindow (onPacketAcked listeners s p) = congestionWindow s + sz)
    \<and> (\<not> ackOnly p \<and> \<not> packetNumber p \<le> endOfRecovery s
          \<and> \<not> lessThanInf (congestionWindow s) (sshtresh s) \<and> 0 < congestionWindow s \<longrightarrow>
          onPacketAcked listeners s p =
            sendPackets listeners
              (s\<lparr>bytesInFlight := bytesInFlight s - sz,
                 congestionWindow := congestionWindow s + (DEFAULT_MSS * sz) div congestionWindow s\<rparr>)
          \<and> congestionWindow (onPacketAcked listeners s p)
              = congestionWindow s + (1460 * sz) div congestionWindow s)
    \<and> (\<not> ackOnly p \<and> (packetsQueue s = [] \<or> listeners = (\<lambda>q. [])) \<longrightarrow>
          bytesInFlight (onPacketAcked listeners s p) = bytesInFlight s - sz)"
proof -
  have "\<not> ackOnly p \<and> (packetsQueue s = [] \<or> listeners = (\<lambda>q. [])) \<longrightarrow>
      bytesInFlight (onPacketAcked listeners s p) = bytesInFlight s - sz"
    by (auto simp add: onPacketAcked_def inRecovery_def Let_def sz_def
        bytesInFlight_sendPackets_silent sendPackets_disabled)
  then show ?thesis
    by (simp add: onPacketAcked_def inRecovery_def Let_def sz_def divide_def
        congestionWindow_sendPackets DEFAULT_MSS_def)
qed


theorem onPacketAcked_accounting_witness:
  "onPacketAcked (\<lambda>p. [p]) (constructor 0)
      \<lparr>ackOnly = True, byteLength = 40, packetSize = 40, packetNumber = 7\<rparr> = constructor 0
   \<and> onPacketAcked (\<lambda>p. [p]) ((constructor 0)\<lparr>bytesInFlight := 3000, endOfRecovery := 9\<rparr>)
      \<lparr>ackOnly = False, byteLength = 1200, packetSize = 1200, packetNumber = 7\<rparr>
       = (constructor 0)\<lparr>bytesInFlight := 1800, endOfRecovery := 9\<rparr>
   \<and> congestionWindow (onPacketAcked (\<lambda>p. [p]) ((constructor 0)\<lparr>bytesInFlight := 3000\<rparr>)
      \<lparr>ackOnly = False, byteLength = 1200, packetSize = 1200, packetNumber = 7\<rparr>) = 15800
   \<and> bytesInFlight (onPacketAcked (\<lambda>p. [p]) ((constructor 0)\<lparr>bytesInFlight := 3000\<rparr>)
      \<lparr>ackOnly = False, byteLength = 1200, packetSize = 1200, packetNumber = 7\<rparr>) = 1800
   \<and> congestionWindow (onPacketAcked (\<lambda>p. [p])
      ((constructor 0)\<lparr>bytesInFlight := 3000, sshtresh := Fin 7300, congestionWindow := 7300\<rparr>)
      \<lparr>ackOnly = False, byteLength = 1200, packetSize = 1200, packetNumber = 7\<rparr>) = 7540"
  using
    onPacketAcked_accounting [of "\<lparr>ackOnly = True, byteLength = 40, packetSize = 40, packetNumber = 7\<rparr>"
      "\<lambda>p. [p]" "constructor 0"]
    onPacketAcked_accounting [of "\<lparr>ackOnly = False, byteLength = 1200, packetSize = 1200, packetNumber = 7\<rparr>"
      "\<lambda>p. [p]" "(constructor 0)\<lparr>bytesInFlight := 3000, endOfRecovery := 9\<rparr>"]
    onPacketAcked_accounting [of "\<lparr>ackOnly = False, byteLength = 1200, packetSize = 1200, packetNumber = 7\<rparr>"
      "\<lambda>p. [p]" "(constructor 0)\<lparr>bytesInFlight := 3000\<rparr>"]
    onPacketAcked_accounting [of "\<lparr>ackOnly = False, byteLength = 1200, packetSize = 1200, packetNumber = 7\<rparr>"
      "\<lambda>p. [p]" "(constructor 0)\<lparr>bytesInFlight := 3000, sshtresh := Fin 7300, congestionWindow := 7300\<rparr>"]
  by (simp add: constructor_def lessThanInf_def INITIAL_WINDOW_def DEFAULT_MSS_def
      congestionWindow_sendPackets sendPackets_disabled)

section \<open>The congestion controller: the minimum window\<close>

lemma congestionWindow_foldl_lost_step:
  "congestionWindow (fst (foldl lost_step (s, l) ps)) = congestionWindow s"
  by (induction ps arbitrary: s l) (simp_all add: Let_def)

lemma endOfRecovery_foldl_lost_step:
  "endOfRecovery (fst (foldl lost_step (s, l) ps)) = endOfRecovery s"
  by (induction ps arbitrary: s l) (simp_all add: Let_def)

lemma congestionWindow_onPacketsLost:
  "congestionWindow (onPacketsLost multiply listeners s ps) =
     (if \<not> snd (foldl lost_step (s, 0) ps) \<le> endOfRecovery s
      then max (multiply (congestionWindow s)) MINIMUM_WINDOW
      else congestionWindow s)"
  by (simp add: onPacketsLost_def inRecovery_def Let_def split_beta
      congestionWindow_sendPackets congestionWindow_foldl_lost_step
      endOfRecovery_foldl_lost_step)

lemma congestionWindow_onPacketAcked:
  assumes "0 < congestionWindow s"
  shows "congestionWindow s \<le> congestionWindow (onPacketAcked listeners s p)"
proof -
  have "0 \<le> DEFAULT_MSS * int (byteLength p) div congestionWindow s"
    using assms by (simp add: DEFAULT_MSS_def pos_imp_zdiv_nonneg_iff)
  then show ?thesis
    by (simp add: onPacketAcked_def inRecovery_def Let_def divide_def
        congestionWindow_sendPackets)
qed

lemma reachable_minimum:
  "reachable multiply s \<Longrightarrow> MINIMUM_WINDOW \<le> congestionWindow s"
proof (induction rule: reachable.induct)
  case (built pn)
  show ?case
    by (simp add: constructor_def INITIAL_WINDOW_def MINIMUM_WINDOW_def DEFAULT_MSS_def)
next
  case (sent s p)
  then show ?case
    by (simp add: onPacketSent_def)
next
  case (acked s listeners p)
  then have "0 < congestionWindow s"
    by (simp add: MINIMUM_WINDOW_def DEFAULT_MSS_def)
  then have "congestionWindow s \<le> congestionWindow (onPacketAcked listeners s p)"
    by (rule congestionWindow_onPacketAcked)
  with acked.IH show ?case
    by linarith
next
  case (lost s listeners ps)
  then show ?case
    by (simp add: congestionWindow_onPacketsLost)
next
  case (timeout s)
  show ?case
    by (simp add: onRetransmissionTimeoutVerified_def)
next
  case (queued s listeners ps)
  then show ?case
    by (simp add: queuePackets_def congestionWindow_sendPackets)
qed

text \<open>
  C6. In every state reachable from the constructor's (window \<open>10 * DEFAULT_MSS\<close>) the
  window is at least \<open>2 * DEFAULT_MSS\<close>; a verified retransmission timeout sets it to exactly
  \<open>2 * DEFAULT_MSS\<close>, and a loss that opens a new recovery epoch sets it to the reduced window
  or to \<open>2 * DEFAULT_MSS\<close>, whichever is larger.
\<close>

theorem congestionWindow_never_below_minimum:
  assumes "reachable multiply s"
  shows "2 * DEFAULT_MSS \<le> congestionWindow s
    \<and> congestionWindow (constructor pn) = 10 * DEFAULT_MSS
    \<and> congestionWindow (onRetransmissionTimeoutVerified s) = 2 * DEFAULT_MSS
    \<and> congestionWindow (onPacketsLost multiply listeners s ps) =
        (if snd (foldl lost_step (s, 0) ps) > endOfRecovery s
         then max (multiply (congestionWindow s)) (2 * DEFAULT_MSS)
         else congestionWindow s)"
  using reachable_minimum [OF assms]
  by (simp add: congestionWindow_onPacketsLost onRetransmissionTimeoutVerified_def
      MINIMUM_WINDOW_def constructor_def INITIAL_WINDOW_def DEFAULT_MSS_def not_le)

theorem congestionWindow_never_below_minimum_witness:
  "reachable (\<lambda>w. w div 2) (constructor 0)
   \<and> 2 * DEFAULT_MSS \<le> congestionWindow (constructor 0)
   \<and> congestionWindow (onRetransmissionTimeoutVerified (constructor 0)) = 2920
   \<and> congestionWindow (onPacketsLost (\<lambda>w. w div 2) (\<lambda>p. [p]) (constructor 0)
        [\<lparr>ackOnly = False, byteLength = 1200, packetSize = 1200, packetNumber = 15\<rparr>]) = 7300"
  using congestionWindow_never_below_minimum [OF reachable.built [of "\<lambda>w. w div 2" 0],
      of 0 "\<lambda>p. [p]" "[\<lparr>ackOnly = False, byteLength = 1200, packetSize = 1200, packetNumber = 15\<rparr>]"]
    reachable.built [of "\<lambda>w. w div 2" 0]
  by (simp add: constructor_def INITIAL_WINDOW_def DEFAULT_MSS_def Let_def)

section \<open>The congestion controller: sending\<close>

lemma emitted_foldl_onPacketSent:
  "emitted (foldl onPacketSent s ps) = emitted s"
  by (induction ps arbitrary: s) (simp_all add: onPacketSent_def)

lemma socketSent_foldl_onPacketSent:
  "socketSent (foldl onPacketSent s ps) = socketSent s"
  by (induction ps arbitrary: s) (simp_all add: onPacketSent_def)

lemma emitted_dispatch:
  "emitted (dispatch listeners s) = emitted s @ [announced s]"
  by (simp add: dispatch_def emit_PACKET_SENT_def getNextPacketNumber_def Let_def
      emitted_foldl_onPacketSent announced_def)

lemma socketSent_dispatch:
  "socketSent (dispatch listeners s) = socketSent s @ [packetSize (hd (packetsQueue s))]"
  by (simp add: dispatch_def emit_PACKET_SENT_def getNextPacketNumber_def Let_def
      socketSent_foldl_onPacketSent)

lemma dispatches_enabled:
  "bytesInFlight s < congestionWindow s \<Longrightarrow> packetsQueue s \<noteq> [] \<Longrightarrow>
    dispatches listeners s = s # dispatches listeners (dispatch listeners s)"
  using dispatches.simps [of listeners s] by simp

lemma dispatches_disabled:
  "\<not> (bytesInFlight s < congestionWindow s \<and> packetsQueue s \<noteq> []) \<Longrightarrow>
    dispatches listeners s = []"
  using dispatches.simps [of listeners s] by auto

lemma dispatches_guarded:
  "t \<in> set (dispatches listeners s) \<Longrightarrow>
    bytesInFlight t < congestionWindow t \<and> packetsQueue t \<noteq> []"
proof (induction listeners s rule: dispatches.induct)
  case (1 listeners s)
  show ?case
  proof (cases "bytesInFlight s < congestionWindow s \<and> packetsQueue s \<noteq> []")
    case True
    with 1 show ?thesis
      by (auto simp add: dispatches_enabled)
  next
    case False
    with 1 show ?thesis
      by (simp add: dispatches_disabled)
  qed
qed

lemma emitted_sendPackets:
  "emitted (sendPackets listeners s) = emitted s @ map announced (dispatches listeners s)"
proof (induction listeners s rule: sendPackets.induct)
  case (1 listeners s)
  show ?case
  proof (cases "bytesInFlight s < congestionWindow s \<and> packetsQueue s \<noteq> []")
    case True
    with 1 show ?thesis
      by (simp add: sendPackets_enabled dispatches_enabled emitted_dispatch)
  next
    case False
    then show ?thesis
      by (simp add: sendPackets_disabled dispatches_disabled)
  qed
qed

lemma socketSent_sendPackets:
  "socketSent (sendPackets listeners s) =
     socketSent s @ map (\<lambda>t. packetSize (hd (packetsQueue t))) (dispatches listeners s)"
proof (induction listeners s rule: sendPackets.induct)
  case (1 listeners s)
  show ?case
  proof (cases "bytesInFlight s < congestionWindow s \<and> packetsQueue s \<noteq> []")
    case True
    with 1 show ?thesis
      by (simp add: sendPackets_enabled dispatches_enabled socketSent_dispatch)
  next
    case False
    then show ?thesis
      by (simp add: sendPackets_disabled dispatches_disabled)
  qed
qed

lemma packetsQueue_sendPackets:
  "packetsQueue (sendPackets listeners s) =
     drop (length (dispatches listeners s)) (packetsQueue s)"
proof (induction listeners s rule: sendPackets.induct)
  case (1 listeners s)
  show ?case
  proof (cases "bytesInFlight s < congestionWindow s \<and> packetsQueue s \<noteq> []")
    case True
    with 1 show ?thesis
      by (simp add: sendPackets_enabled dispatches_enabled packetsQueue_dispatch drop_Suc)
  next
    case False
    then show ?thesis
      by (simp add: sendPackets_disabled dispatches_disabled)
  qed
qed

text \<open>
  C7. Every packet that \<open>sendPackets\<close> takes off the queue, hands to the socket and announces
  with \<open>PACKET_SENT\<close> is dispatched in a state with \<open>bytesInFlight < congestionWindow\<close>: what
  a run emits and sends is exactly one packet for each entry into the loop's body, and
  each entry has passed the test. With \<open>bytesInFlight \<ge> congestionWindow\<close>, \<open>queuePackets\<close>
  appends to the queue and does nothing else.
\<close>

theorem sendPackets_only_below_window:
  "(\<forall>t \<in> set (dispatches listeners s). bytesInFlight t < congestionWindow t)
    \<and> emitted (sendPackets listeners s) = emitted s @ map announced (dispatches listeners s)
    \<and> socketSent (sendPackets listeners s) =
        socketSent s @ map (\<lambda>t. packetSize (hd (packetsQueue t))) (dispatches listeners s)
    \<and> packetsQueue (sendPackets listeners s) =
        drop (length (dispatches listeners s)) (packetsQueue s)
    \<and> (bytesInFlight s \<ge> congestionWindow s \<longrightarrow>
        queuePackets listeners s packets = s\<lparr>packetsQueue := packetsQueue s @ packets\<rparr>)"
  using dispatches_guarded [of _ listeners s]
  by (auto simp add: emitted_sendPackets socketSent_sendPackets packetsQueue_sendPackets
      queuePackets_def sendPackets_disabled)


lemma dispatches_example:
  "dispatches (\<lambda>p. [p])
     ((constructor 0)\<lparr>packetsQueue :=
        [\<lparr>ackOnly = False, byteLength = 8000, packetSize = 8000, packetNumber = 0\<rparr>,
         \<lparr>ackOnly = False, byteLength = 8000, packetSize = 8000, packetNumber = 0\<rparr>,
         \<lparr>ackOnly = False, byteLength = 8000, packetSize = 8000, packetNumber = 0\<rparr>]\<rparr>)
   = [(constructor 0)\<lparr>packetsQueue :=
        [\<lparr>ackOnly = False, byteLength = 8000, packetSize = 8000, packetNumber = 0\<rparr>,
         \<lparr>ackOnly = False, byteLength = 8000, packetSize = 8000, packetNumber = 0\<rparr>,
         \<lparr>ackOnly = False, byteLength = 8000, packetSize = 8000, packetNumber = 0\<rparr>]\<rparr>,
      (constructor 0)\<lparr>packetsQueue :=
        [\<lparr>ackOnly = False, byteLength = 8000, packetSize = 8000, packetNumber = 0\<rparr>,
         \<lparr>ackOnly = False, byteLength = 8000, packetSize = 8000, packetNumber = 0\<rparr>],
        bytesInFlight := 8000, lastPacketNumber := 1, socketSent := [8000],
        emitted := [\<lparr>ackOnly = False, byteLength = 8000, packetSize = 8000, packetNumber = 1\<rparr>]\<rparr>]"
  by (simp add: dispatches.simps dispatch_def emit_PACKET_SENT_def getNextPacketNumber_def
      onPacketSent_def constructor_def INITIAL_WINDOW_def DEFAULT_MSS_def Let_def)

theorem sendPackets_only_below_window_witness:
  "emitted (sendPackets (\<lambda>p. [p])
     ((constructor 0)\<lparr>packetsQueue :=
        [\<lparr>ackOnly = False, byteLength = 8000, packetSize = 8000, packetNumber = 0\<rparr>,
         \<lparr>ackOnly = False, byteLength = 8000, packetSize = 8000, packetNumber = 0\<rparr>,
         \<lparr>ackOnly = False, byteLength = 8000, packetSize = 8000, packetNumber = 0\<rparr>]\<rparr>))
   = [\<lparr>ackOnly = False, byteLength = 8000, packetSize = 8000, packetNumber = 1\<rparr>,
      \<lparr>ackOnly = False, byteLength = 8000, packetSize = 8000, packetNumber = 2\<rparr>]
   \<and> packetsQueue (sendPackets (\<lambda>p. [p])
     ((constructor 0)\<lparr>packetsQueue :=
        [\<lparr>ackOnly = False, byteLength = 8000, packetSize = 8000, packetNumber = 0\<rparr>,
         \<lparr>ackOnly = False, byteLength = 8000, packetSize = 8000, packetNumber = 0\<rparr>,
         \<lparr>ackOnly = False, byteLength = 8000, packetSize = 8000, packetNumber = 0\<rparr>]\<rparr>))
   = [\<lparr>ackOnly = False, byteLength = 8000, packetSize = 8000, packetNumber = 0\<rparr>]
   \<and> list_all (\<lambda>t. bytesInFlight t < congestionWindow t) (dispatches (\<lambda>p. [p])
     ((constructor 0)\<lparr>packetsQueue :=
        [\<lparr>ackOnly = False, byteLength = 8000, packetSize = 8000, packetNumber = 0\<rparr>,
         \<lparr>ackOnly = False, byteLength = 8000, packetSize = 8000, packetNumber = 0\<rparr>,
         \<lparr>ackOnly = False, byteLength = 8000, packetSize = 8000, packetNumber = 0\<rparr>]\<rparr>))
   \<and> queuePackets (\<lambda>p. [p]) ((constructor 0)\<lparr>bytesInFlight := 14600\<rparr>)
        [\<lparr>ackOnly = False, byteLength = 8000, packetSize = 8000, packetNumber = 0\<rparr>]
     = (constructor 0)\<lparr>bytesInFlight := 14600, packetsQueue :=
        [\<lparr>ackOnly = False, byteLength = 8000, packetSize = 8000, packetNumber = 0\<rparr>]\<rparr>"
  using
    sendPackets_only_below_window [of "\<lambda>p. [p]"
      "(constructor 0)\<lparr>packetsQueue :=
        [\<lparr>ackOnly = False, byteLength = 8000, packetSize = 8000, packetNumber = 0\<rparr>,
         \<lparr>ackOnly = False, byteLength = 8000, packetSize = 8000, packetNumber = 0\<rparr>,
         \<lparr>ackOnly = False, byteLength = 8000, packetSize = 8000, packetNumber = 0\<rparr>]\<rparr>" "[]"]
    sendPackets_only_below_window [of "\<lambda>p. [p]" "(constructor 0)\<lparr>bytesInFlight := 14600\<rparr>"
      "[\<lparr>ackOnly = False, byteLength = 8000, packetSize = 8000, packetNumber = 0\<rparr>]"]
  unfolding dispatches_example
  by (simp add: announced_def getNextPacketNumber_def constructor_def INITIAL_WINDOW_def
      DEFAULT_MSS_def)

section \<open>The alarm is single-shot\<close>

lemma alarm_inv_start: "alarm_inv a \<Longrightarrow> alarm_inv (start a timeInMs)"
  by (auto simp add: alarm_inv_def start_def isRunning_def setTimeout_def Let_def split: if_splits)

lemma alarm_inv_reset: "alarm_inv a \<Longrightarrow> alarm_inv (reset a)"
  by (auto simp add: alarm_inv_def reset_def isRunning_def clearTimeout_def Let_def split: if_splits)

lemma fire_pending:
  assumes "alarm_inv a" and "fire a h = Some a'"
  shows "a' = a\<lparr>pendingTimers := [], running := False,
                 timeoutsEmitted := Suc (timeoutsEmitted a)\<rparr> \<and> running a"
proof -
  from assms(2) have h: "h \<in> fst ` set (pendingTimers a)"
    by (auto simp add: fire_def split: if_splits)
  with assms(1) have r: "running a"
    by (auto simp add: alarm_inv_def split: if_splits)
  with assms(1) h obtain ms where p: "pendingTimers a = [(h, ms)]"
    by (auto simp add: alarm_inv_def)
  from assms(2) h r p show ?thesis
    by (auto simp add: fire_def onTimeout_def isRunning_def Let_def)
qed

lemma alarm_inv_fire: "alarm_inv a \<Longrightarrow> fire a h = Some a' \<Longrightarrow> alarm_inv a'"
  by (drule (1) fire_pending) (simp add: alarm_inv_def)

lemma alarm_reachable_inv: "alarm_reachable a \<Longrightarrow> alarm_inv a"
proof (induction rule: alarm_reachable.induct)
  case created
  show ?case by (simp add: alarm_inv_def new_Alarm_def)
next
  case (started a timeInMs)
  then show ?case by (simp add: alarm_inv_start)
next
  case (was_reset a)
  then show ?case by (simp add: alarm_inv_reset)
next
  case (fired a h a')
  then show ?case by (simp add: alarm_inv_fire)
qed

text \<open>
  C9. \<open>reset\<close> on an alarm that is not running changes nothing. \<open>start\<close> on a running alarm
  changes nothing, the pending timer included, so arming twice is arming once. When the
  timer of an alarm a program can hold fires, the alarm was running, \<open>TIMEOUT\<close> is emitted
  exactly once and the alarm is left not running with no timer pending: nothing more can
  fire, with or without a \<open>reset\<close>, until \<open>start\<close> arms it again.
\<close>

theorem alarm_single_shot:
  "(\<not> isRunning a \<longrightarrow> reset a = a)
    \<and> (isRunning a \<longrightarrow> start a timeInMs = a)
    \<and> start (start a timeInMs) timeInMs' = start a timeInMs
    \<and> (alarm_reachable a \<and> fire a h = Some a' \<longrightarrow>
          isRunning a \<and> timeoutsEmitted a' = timeoutsEmitted a + 1 \<and> \<not> isRunning a'
          \<and> pendingTimers a' = []
          \<and> (\<forall>k. fire a' k = None)
          \<and> (\<forall>k. fire (reset a') k = None)
          \<and> fire (start a' timeInMs) (nextTimer a') \<noteq> None)"
proof -
  have 1: "\<not> isRunning a \<longrightarrow> reset a = a"
    by (simp add: reset_def)
  have 2: "isRunning a \<longrightarrow> start a timeInMs = a"
    by (simp add: start_def)
  have 3: "start (start a timeInMs) timeInMs' = start a timeInMs"
    by (simp add: start_def isRunning_def setTimeout_def Let_def)
  have 4: "isRunning a \<and> timeoutsEmitted a' = timeoutsEmitted a + 1 \<and> \<not> isRunning a'
      \<and> pendingTimers a' = []
      \<and> (\<forall>k. fire a' k = None) \<and> (\<forall>k. fire (reset a') k = None)
      \<and> fire (start a' timeInMs) (nextTimer a') \<noteq> None"
    if "alarm_reachable a" and "fire a h = Some a'"
    using fire_pending [OF alarm_reachable_inv [OF that(1)] that(2)]
    by (simp add: isRunning_def fire_def reset_def start_def setTimeout_def Let_def)
  from 1 2 3 4 show ?thesis
    by blast
qed

theorem alarm_single_shot_witness:
  "alarm_reachable (start new_Alarm 25)
   \<and> isRunning (start new_Alarm 25)
   \<and> start (start new_Alarm 25) 40 = start new_Alarm 25
   \<and> fire (start new_Alarm 25) 0
       = Some (new_Alarm\<lparr>timer := Some 0, nextTimer := 1, timeoutsEmitted := 1\<rparr>)
   \<and> fire (new_Alarm\<lparr>timer := Some 0, nextTimer := 1, timeoutsEmitted := 1\<rparr>) 0 = None
   \<and> reset new_Alarm = new_Alarm"
proof -
  have r: "alarm_reachable (start new_Alarm 25)"
    by (rule alarm_reachable.started [OF alarm_reachable.created])
  have f: "fire (start new_Alarm 25) 0
      = Some (new_Alarm\<lparr>timer := Some 0, nextTimer := 1, timeoutsEmitted := 1\<rparr>)"
    by (simp add: fire_def start_def onTimeout_def isRunning_def setTimeout_def new_Alarm_def)
  have i: "isRunning (start new_Alarm 25)"
    by (simp add: start_def isRunning_def setTimeout_def new_Alarm_def)
  from alarm_single_shot [of "start new_Alarm 25" 40 40 0
      "new_Alarm\<lparr>timer := Some 0, nextTimer := 1, timeoutsEmitted := 1\<rparr>"]
    alarm_single_shot [of new_Alarm 0 0 0 new_Alarm] r f i
  show ?thesis
    by (simp add: isRunning_def new_Alarm_def)
qed

section \<open>Version negotiation\<close>











section \<open>Connection IDs\<close>











section \<open>The stream manager\<close>

lemma getStream_private_foldl:
  "foldl (\<lambda>res stream. if f stream = streamId then Some stream else res) res0 rs =
     (case filter (\<lambda>r. f r = streamId) rs of [] \<Rightarrow> res0 | r # rest \<Rightarrow> Some (last (r # rest)))"
proof (induction rs rule: rev_induct)
  case Nil
  show ?case by simp
next
  case (snoc x xs)
  then show ?case
    by (auto split: list.splits)
qed

lemma getStream_private_None:
  "(getStream_private m streamId = None) = (streamId \<notin> getStreamID m ` set (streams m))"
proof -
  have "(filter (\<lambda>r. getStreamID m r = streamId) (streams m) = [])
      = (streamId \<notin> getStreamID m ` set (streams m))"
    by (auto simp add: filter_empty_conv)
  then show ?thesis
    by (auto simp add: getStream_private_def getStream_private_foldl split: list.splits)
qed

lemma getStream_private_Some:
  assumes "getStream_private m streamId = Some r"
  shows "r \<in> set (streams m) \<and> getStreamID m r = streamId"
proof -
  from assms obtain x xs where f: "filter (\<lambda>r. getStreamID m r = streamId) (streams m) = x # xs"
    and r: "r = last (x # xs)"
    by (auto simp add: getStream_private_def getStream_private_foldl split: list.splits)
  have "last (x # xs) \<in> set (x # xs)"
    by (rule last_in_set) simp
  with f r have "r \<in> set (filter (\<lambda>r. getStreamID m r = streamId) (streams m))"
    by simp
  then show ?thesis
    by simp
qed

lemma getStream_private_same:
  assumes "streams m' = streams m"
    and "\<And>r. r \<in> set (streams m) \<Longrightarrow> getStreamID m' r = getStreamID m r"
  shows "getStream_private m' streamId = getStream_private m streamId"
proof -
  from assms(2) have "filter (\<lambda>r. getStreamID m' r = streamId) (streams m)
      = filter (\<lambda>r. getStreamID m r = streamId) (streams m)"
    by (auto intro: filter_cong)
  with assms(1) show ?thesis
    by (simp add: getStream_private_def getStream_private_foldl)
qed

lemma getStreamID_other_fields:
  "getStreamID (m\<lparr>streams := rs\<rparr>) = getStreamID m"
  "getStreamID (m\<lparr>localMaxStreamData := l\<rparr>) = getStreamID m"
  "getStreamID (m\<lparr>remoteMaxStreamData := l\<rparr>) = getStreamID m"
  "getStreamID (m\<lparr>initialized := rs\<rparr>) = getStreamID m"
  by (simp_all add: getStreamID_def fun_eq_iff)

lemma getStreamID_old_object:
  "r < length (objects m) \<Longrightarrow> getStreamID (m\<lparr>objects := objects m @ new\<rparr>) r = getStreamID m r"
  by (simp add: getStreamID_def nth_append)

lemma getStreamID_new_object:
  "getStreamID (m\<lparr>objects := objects m @ [s]\<rparr>) (length (objects m)) = streamID s"
  by (simp add: getStreamID_def)

lemma ids_old_objects:
  assumes "\<forall>r \<in> set rs. r < length (objects m)"
  shows "map (getStreamID (m\<lparr>objects := objects m @ new\<rparr>)) rs = map (getStreamID m) rs"
  using assms by (simp add: getStreamID_old_object)

lemma initializeStream_absent:
  assumes "sm_inv m" and "\<not> hasStream m streamId"
  shows "initializeStream m streamId =
     (length (objects m),
      m\<lparr>objects := objects m @ [created_stream m streamId],
        streams := streams m @ [length (objects m)],
        initialized := initialized m @ [length (objects m)]\<rparr>)"
proof -
  let ?s = "\<lparr>streamID = streamId, streamEndpointType = endpointType m,
      localMaxData = None, remoteMaxData = None\<rparr>"
  let ?m1 = "m\<lparr>objects := objects m @ [?s]\<rparr>"
  have old: "getStreamID ?m1 r = getStreamID m r" if "r \<in> set (streams m)" for r
    using assms(1) that by (simp add: sm_inv_def getStreamID_def nth_append)
  have "getStream_private ?m1 streamId = getStream_private m streamId"
    by (rule getStream_private_same) (simp_all add: old)
  with assms(2) have absent: "getStream_private ?m1 streamId = None"
    by (simp add: hasStream_def)
  have new: "getStreamID ?m1 (length (objects m)) = streamId"
    by (simp add: getStreamID_def)
  from absent new have add: "addStream ?m1 (length (objects m))
      = ?m1\<lparr>streams := streams m @ [length (objects m)]\<rparr>"
    by (simp add: addStream_def)
  show ?thesis
    by (cases "localMaxStreamData m"; cases "remoteMaxStreamData m")
      (simp_all add: initializeStream_def new_Stream_def add Let_def setLocalMaxData_def
        setRemoteMaxData_def created_stream_def)
qed

lemma getStream_present:
  "hasStream m streamId \<Longrightarrow>
    getStream m streamId = (the (getStream_private m streamId), m)"
  by (auto simp add: getStream_def hasStream_def)

lemma getStream_absent:
  assumes "sm_inv m" and "\<not> hasStream m streamId"
  shows "getStream m streamId =
     (length (objects m),
      m\<lparr>objects := objects m @ [created_stream m streamId],
        streams := streams m @ [length (objects m)],
        initialized := initialized m @ [length (objects m)]\<rparr>)"
  using assms initializeStream_absent [OF assms]
  by (simp add: getStream_def hasStream_def)

lemma sm_inv_getStream:
  assumes "sm_inv m"
  shows "sm_inv (snd (getStream m streamId))"
proof (cases "hasStream m streamId")
  case True
  with assms show ?thesis
    by (simp add: getStream_present)
next
  case False
  from assms have wf: "\<forall>r \<in> set (streams m). r < length (objects m)"
    and d: "distinct (map (getStreamID m) (streams m))"
    by (simp_all add: sm_inv_def)
  from False have "streamId \<notin> getStreamID m ` set (streams m)"
    by (simp add: hasStream_def getStream_private_None)
  with wf d have "sm_inv (m\<lparr>objects := objects m @ [created_stream m streamId],
        streams := streams m @ [length (objects m)],
        initialized := initialized m @ [length (objects m)]\<rparr>)"
    by (auto simp add: sm_inv_def getStreamID_other_fields ids_old_objects
        getStreamID_new_object created_stream_def)
  with getStream_absent [OF assms False] show ?thesis
    by simp
qed

lemma sm_inv_deleteStream:
  assumes "sm_inv m"
  shows "sm_inv (deleteStream m obj)"
proof -
  have spliced: "sm_inv (m\<lparr>streams := take i (streams m) @ drop (i + 1) (streams m)\<rparr>)" for i
  proof -
    have s: "set (take i (streams m) @ drop (i + 1) (streams m)) \<subseteq> set (streams m)"
      by (auto dest: in_set_takeD in_set_dropD)
    have "map (getStreamID m) (streams m)
        = map (getStreamID m) (take i (streams m)) @ map (getStreamID m) (drop i (streams m))"
      by (simp flip: map_append)
    moreover have "drop (i + 1) (streams m) = tl (drop i (streams m))"
      by (simp add: drop_Suc tl_drop)
    moreover from assms have "distinct (map (getStreamID m) (streams m))"
      by (simp add: sm_inv_def)
    ultimately have "distinct (map (getStreamID m) (take i (streams m) @ drop (i + 1) (streams m)))"
      by (cases "drop i (streams m)") auto
    with assms s show ?thesis
      by (auto simp add: sm_inv_def getStreamID_other_fields)
  qed
  show ?thesis
  proof (cases "case obj of Inl streamId \<Rightarrow> getStream_private m streamId | Inr stream \<Rightarrow> Some stream")
    case None
    with assms show ?thesis
      by (simp add: deleteStream_def)
  next
    case (Some stream)
    with assms spliced [of "nat (indexOf (streams m) stream)"] show ?thesis
      by (simp add: deleteStream_def Let_def)
  qed
qed

lemma sm_inv_addStream:
  assumes "sm_inv m" and "stream < length (objects m)"
  shows "sm_inv (addStream m stream)"
proof (cases "getStream_private m (getStreamID m stream) = None")
  case True
  with assms show ?thesis
    by (auto simp add: addStream_def sm_inv_def getStream_private_None getStreamID_other_fields)
next
  case False
  with assms show ?thesis
    by (auto simp add: addStream_def)
qed

lemma sm_inv_new_Stream:
  assumes "sm_inv m"
  shows "sm_inv (snd (new_Stream m endpoint streamId))"
  using assms by (auto simp add: sm_inv_def new_Stream_def ids_old_objects)

lemma sm_reachable_inv: "sm_reachable m \<Longrightarrow> sm_inv m"
proof (induction rule: sm_reachable.induct)
  case (manager endpoint)
  show ?case
    by (simp add: sm_inv_def new_StreamManager_def)
next
  case (local_limit m maxStreamData)
  then show ?case
    by (simp add: sm_inv_def setLocalMaxStreamData_def getStreamID_other_fields)
next
  case (remote_limit m maxStreamData)
  then show ?case
    by (simp add: sm_inv_def setRemoteMaxStreamData_def getStreamID_other_fields)
next
  case (got m streamId)
  then show ?case
    by (simp add: sm_inv_getStream)
next
  case (next_got m streamType)
  then show ?case
    by (simp add: getNextStream_def sm_inv_getStream)
next
  case (created m endpoint streamId)
  then show ?case
    by (simp add: sm_inv_new_Stream)
next
  case (added m stream)
  then show ?case
    by (simp add: sm_inv_addStream)
next
  case (deleted_id m streamId)
  then show ?case
    by (simp add: sm_inv_deleteStream)
next
  case (deleted m stream)
  then show ?case
    by (simp add: sm_inv_deleteStream)
qed

text \<open>
  C10. \<open>getStream\<close> always returns a stream, and its ID is the one asked for. If the
  manager had no stream of that ID, the call has made one (built for the manager's
  endpoint type, with the manager's local and remote limits where they are set), pushed
  it on the list and announced it with \<open>INITIALIZED_STREAM\<close>; otherwise the manager is as
  it was. Either way \<open>hasStream\<close> holds of that ID afterwards, and no two streams of the
  list have the same ID, before the call or after it.
\<close>

theorem getStream_total_and_creating:
  assumes "sm_reachable m"
  shows "distinct (map (getStreamID m) (streams m))
    \<and> (case getStream m streamId of (stream, m') \<Rightarrow>
      stream \<in> set (streams m') \<and> stream < length (objects m')
      \<and> getStreamID m' stream = streamId
      \<and> hasStream m' streamId
      \<and> distinct (map (getStreamID m') (streams m'))
      \<and> (if hasStream m streamId then m' = m
          else stream = length (objects m)
            \<and> m' = m\<lparr>objects := objects m @ [created_stream m streamId],
                      streams := streams m @ [stream],
                      initialized := initialized m @ [stream]\<rparr>))"
proof -
  have inv: "sm_inv m"
    using assms by (rule sm_reachable_inv)
  obtain stream m' where g: "getStream m streamId = (stream, m')"
    by (cases "getStream m streamId")
  have inv': "sm_inv m'"
    using sm_inv_getStream [OF inv, of streamId] g by simp
  have found: "stream \<in> set (streams m') \<and> getStreamID m' stream = streamId
      \<and> (if hasStream m streamId then m' = m
          else stream = length (objects m)
            \<and> m' = m\<lparr>objects := objects m @ [created_stream m streamId],
                      streams := streams m @ [stream],
                      initialized := initialized m @ [stream]\<rparr>)"
  proof (cases "hasStream m streamId")
    case True
    then obtain r where r: "getStream_private m streamId = Some r"
      by (auto simp add: hasStream_def)
    with True g getStream_private_Some [OF r] show ?thesis
      by (simp add: getStream_present)
  next
    case False
    with g getStream_absent [OF inv False] show ?thesis
      by (auto simp add: getStreamID_def created_stream_def)
  qed
  then have "streamId \<in> getStreamID m' ` set (streams m')"
    by blast
  then have "hasStream m' streamId"
    by (simp add: hasStream_def getStream_private_None)
  with found inv inv' g show ?thesis
    by (simp add: sm_inv_def)
qed

theorem getStream_total_and_creating_witness:
  "sm_reachable (setLocalMaxStreamData (new_StreamManager Client) 100)
   \<and> getStream (setLocalMaxStreamData (new_StreamManager Client) 100) 4
     = (0, \<lparr>objects = [\<lparr>streamID = 4, streamEndpointType = Client,
                         localMaxData = Some 100, remoteMaxData = None\<rparr>],
            streams = [0], endpointType = Client, localMaxStreamData = Some 100,
            remoteMaxStreamData = None, initialized = [0]\<rparr>)
   \<and> hasStream (snd (getStream (setLocalMaxStreamData (new_StreamManager Client) 100) 4)) 4
   \<and> \<not> hasStream (setLocalMaxStreamData (new_StreamManager Client) 100) 4"
proof -
  have r: "sm_reachable (setLocalMaxStreamData (new_StreamManager Client) 100)"
    by (rule sm_reachable.local_limit [OF sm_reachable.manager])
  have h: "\<not> hasStream (setLocalMaxStreamData (new_StreamManager Client) 100) 4"
    by (simp add: hasStream_def getStream_private_def setLocalMaxStreamData_def
        new_StreamManager_def)
  from getStream_total_and_creating [OF r, of 4] r h show ?thesis
    by (auto simp add: setLocalMaxStreamData_def new_StreamManager_def created_stream_def)
qed

section \<open>The next stream\<close>

text \<open>
  C4. \<open>getNextStream(t)\<close> is meant to return a stream of the lowest unused ID of type
  \<open>t\<close>. Its first loop finds that ID; its second loop takes 4 off it while it is above 4.
  So on a manager that holds stream 1, asking for type 1 finds 5, goes back to 1 and
  returns the stream the manager already has: two calls on a new manager give the same
  stream twice, and the second makes nothing.
\<close>

theorem getNextStream_returns_used_stream:
  "getNextStream (new_StreamManager Client) 1
     = (0, \<lparr>objects = [\<lparr>streamID = 1, streamEndpointType = Client,
                         localMaxData = None, remoteMaxData = None\<rparr>],
            streams = [0], endpointType = Client, localMaxStreamData = None,
            remoteMaxStreamData = None, initialized = [0]\<rparr>)
   \<and> nextUnused
        \<lparr>objects = [\<lparr>streamID = 1, streamEndpointType = Client,
                      localMaxData = None, remoteMaxData = None\<rparr>],
         streams = [0], endpointType = Client, localMaxStreamData = None,
         remoteMaxStreamData = None, initialized = [0]\<rparr> 1 = 5
   \<and> getNextStream
        \<lparr>objects = [\<lparr>streamID = 1, streamEndpointType = Client,
                      localMaxData = None, remoteMaxData = None\<rparr>],
         streams = [0], endpointType = Client, localMaxStreamData = None,
         remoteMaxStreamData = None, initialized = [0]\<rparr> 1
     = (0, \<lparr>objects = [\<lparr>streamID = 1, streamEndpointType = Client,
                         localMaxData = None, remoteMaxData = None\<rparr>],
            streams = [0], endpointType = Client, localMaxStreamData = None,
            remoteMaxStreamData = None, initialized = [0]\<rparr>)"
  by (simp add: getNextStream_def nextUnused.simps reduceNext.simps getStream_def
      getStream_private_def getStreamID_def initializeStream_def new_Stream_def addStream_def
      new_StreamManager_def Let_def)

section \<open>The long header on the wire\<close>

lemma Buffer_alloc_written: "Buffer_alloc n = written [] n"
  by (simp add: Buffer_alloc_def written_def)

lemma writeUInt8_written:
  "0 \<le> v \<Longrightarrow> v \<le> 255 \<Longrightarrow> 0 < k \<Longrightarrow> offset = length pre \<Longrightarrow>
    writeUInt8 (written pre k) v offset = Inr (written (pre @ [word_of_int v]) (k - 1))"
  by (cases k) (simp_all add: writeUInt8_def written_def list_update_append)

lemma copy_written:
  "length source \<le> k \<Longrightarrow> offset = length pre \<Longrightarrow>
    copy source (written pre k) offset = (length source, written (pre @ source) (k - length source))"
  by (simp add: copy_def written_def Let_def min_def)

lemma written_done: "written pre 0 = pre"
  by (simp add: written_def)

lemma length_toBuffer_Bignum: "length (toBuffer_Bignum n b) = n"
  by (simp add: toBuffer_Bignum_def)

lemma toBuffer_layout_version_negotiation:
  assumes t: "0 \<le> packetType h" "packetType h < 0x80"
    and d: "valid_length (cidLength (destConnectionID h))"
    and s: "valid_length (cidLength (srcConnectionID h))"
    and v: "IsVersionNegotationFlag (version h)"
    and pl: "payloadLength h = None"
  shows "toBuffer n h = Inr (long_header_layout n h)
    \<and> length (long_header_layout n h) = getSize n h"
proof -
  have nib: "0 \<le> push_bit 4 (if cidLength (destConnectionID h) = 0 then int (cidLength (destConnectionID h))
                    else int (cidLength (destConnectionID h)) - 3)
      + (if cidLength (srcConnectionID h) = 0 then int (cidLength (srcConnectionID h))
                    else int (cidLength (srcConnectionID h)) - 3)"
    "push_bit 4 (if cidLength (destConnectionID h) = 0 then int (cidLength (destConnectionID h))
                    else int (cidLength (destConnectionID h)) - 3)
      + (if cidLength (srcConnectionID h) = 0 then int (cidLength (srcConnectionID h))
                    else int (cidLength (srcConnectionID h)) - 3) \<le> 255"
    using d s by (auto simp add: valid_length_def push_bit_eq_mult)
  from t nib v pl show ?thesis
    by (simp add: toBuffer_def getSize_def Let_def Buffer_alloc_written writeUInt8_written
        copy_written written_done long_header_layout_def toBuffer_Version_def
        toBuffer_ConnectionID_def length_toBuffer_Bignum)
qed

lemma toBuffer_throws:
  assumes "\<not> IsVersionNegotationFlag (version h)"
  shows "\<exists>e. toBuffer n h = Inl e"
  using assms
  by (auto simp add: toBuffer_def Let_def getLeastSignificantBits_def
      split: sum.splits prod.splits option.splits)

text \<open>
  C8. \<open>toBuffer\<close> is meant to lay a long header out as type byte, version, length byte,
  the two connection IDs and, unless the version is the Version Negotiation flag, the
  payload length and the packet number. It does so for a Version Negotiation header
  without payload length, and for no other header. \<open>getSize\<close> counts the payload length
  whatever the version, and \<open>toBuffer\<close> writes it only when the version is not the flag: a
  Version Negotiation header that has a payload length gets a buffer that is longer
  than its layout, with zeros at its end. And for a header that is not a Version
  Negotiation \<open>toBuffer\<close> ends in a call to \<open>getLeastSignificantBits\<close>, a method the packet
  number does not have: it throws a \<open>TypeError\<close> and returns no buffer.
\<close>

theorem toBuffer_version_negotiation_with_length:
  "toBuffer n
     \<lparr>packetType = 0x7F, headerPacketNumber = Some 1, version = 0,
      destConnectionID = \<lparr>cidValue = 0x01020304, cidLength = 4\<rparr>,
      srcConnectionID = \<lparr>cidValue = 0x0A0B0C0D, cidLength = 4\<rparr>,
      payloadLength = Some 5\<rparr>
    = Inr [0xFF, 0, 0, 0, 0, 0x11, 1, 2, 3, 4, 0x0A, 0x0B, 0x0C, 0x0D, 0]
   \<and> long_header_layout n
     \<lparr>packetType = 0x7F, headerPacketNumber = Some 1, version = 0,
      destConnectionID = \<lparr>cidValue = 0x01020304, cidLength = 4\<rparr>,
      srcConnectionID = \<lparr>cidValue = 0x0A0B0C0D, cidLength = 4\<rparr>,
      payloadLength = Some 5\<rparr>
    = [0xFF, 0, 0, 0, 0, 0x11, 1, 2, 3, 4, 0x0A, 0x0B, 0x0C, 0x0D]
   \<and> getSize n
     \<lparr>packetType = 0x7F, headerPacketNumber = Some 1, version = 0,
      destConnectionID = \<lparr>cidValue = 0x01020304, cidLength = 4\<rparr>,
      srcConnectionID = \<lparr>cidValue = 0x0A0B0C0D, cidLength = 4\<rparr>,
      payloadLength = Some 5\<rparr> = 15
   \<and> toBuffer n
     \<lparr>packetType = 0x7F, headerPacketNumber = Some 0x11223344, version = 0xff00000c,
      destConnectionID = \<lparr>cidValue = 0x01020304, cidLength = 4\<rparr>,
      srcConnectionID = \<lparr>cidValue = 0x0A0B0C0D, cidLength = 4\<rparr>,
      payloadLength = Some 1200\<rparr>
    = Inl TypeError
   \<and> long_header_layout 4
     \<lparr>packetType = 0x7F, headerPacketNumber = Some 0x11223344, version = 0xff00000c,
      destConnectionID = \<lparr>cidValue = 0x01020304, cidLength = 4\<rparr>,
      srcConnectionID = \<lparr>cidValue = 0x0A0B0C0D, cidLength = 4\<rparr>,
      payloadLength = Some 1200\<rparr>
    = [0xFF, 0xFF, 0, 0, 0x0C, 0x11, 1, 2, 3, 4, 0x0A, 0x0B, 0x0C, 0x0D, 0x44, 0xB0,
       0x11, 0x22, 0x33, 0x44]"
  (is "?written \<and> ?negotiation \<and> ?size \<and> ?throws \<and> ?layout")
proof (intro conjI)
  show ?written
    by code_simp
  show ?negotiation
    by code_simp
  show ?size
    by code_simp
  show ?throws
    by (simp add: toBuffer_def getSize_def Let_def Buffer_alloc_written writeUInt8_written
        copy_written toBuffer_Version_def toBuffer_ConnectionID_def length_toBuffer_Bignum
        getLeastSignificantBits_def IsVersionNegotationFlag_def VLIE_encode_def)
  show ?layout
    by code_simp
qed

end
